theory Spec2Isabelle
  imports Complex_Main "HOL-Library.Finite_Map" "HOL-Library.Sublist"
    "HOL-Library.Char_ord" "HOL-Library.List_Lexorder"
begin

section \<open>Python values of tomlcli.py\<close>

text \<open>
  The exceptions the functions of \<^verbatim>\<open>tomlcli.py\<close> modelled here can raise. The command
  handlers report a \<^verbatim>\<open>KeyError\<close> as \<^verbatim>\<open>Error: ...\<close> and every other exception as
  \<^verbatim>\<open>Unhandled error: ...\<close>.
\<close>

datatype py_error = KeyError | TypeError | IndexError | ValueError

text \<open>
  The Python class of a mapping node. \<^verbatim>\<open>tomlkit.items.Table\<close> and
  \<^verbatim>\<open>tomlkit.items.InlineTable\<close> are both subclasses of \<^verbatim>\<open>dict\<close>, and so is the container
  that \<^verbatim>\<open>tomlkit.parse\<close> returns for a whole document; of the three only the first is an
  instance of \<^verbatim>\<open>tomlkit.items.Table\<close>.
\<close>

datatype tkind = KTable | KInlineTable | KContainer

text \<open>
  A float carries the number its decimal literal denotes, or an infinity where the
  conversion to binary64 overflows, or zero where it underflows; the rounding to the
  nearest binary64 number in between is left out of the model.
\<close>

datatype pyfloat = Finite rat | Infinity bool | NaN

text \<open>
  A node of a document. A mapping is a finite map from keys to nodes: the order in which
  tomlkit keeps the keys of a table follows the layout rules of that library and is not
  part of the model. An array of tables is an \<open>Array\<close> of \<open>Dict\<close> nodes; a date or time
  value is kept as its text. A string is the list of its code points, for code points
  below 256.
\<close>

datatype node =
    Dict tkind "(string, node) fmap"
  | Array "node list"
  | Boolean bool
  | Integer int
  | Float pyfloat
  | String string
  | DateTime string

text \<open>\<^verbatim>\<open>isinstance(x, (dict, tomlkit.items.Table))\<close>\<close>

fun is_dict :: "node \<Rightarrow> bool" where
  "is_dict (Dict k m) = True"
| "is_dict v = False"

text \<open>\<^verbatim>\<open>isinstance(x, tomlkit.items.Table)\<close>\<close>

fun is_table :: "node \<Rightarrow> bool" where
  "is_table (Dict k m) = (k = KTable)"
| "is_table v = False"

text \<open>\<^verbatim>\<open>isinstance(x, tomlkit.items.InlineTable)\<close>\<close>

fun is_inline_table :: "node \<Rightarrow> bool" where
  "is_inline_table (Dict k m) = (k = KInlineTable)"
| "is_inline_table v = False"

text \<open>
  \<^verbatim>\<open>seg in current\<close>: key membership in a mapping, substring test in a string, element
  equality in a list (a \<^verbatim>\<open>str\<close> equals only a string element with the same text), and a
  \<^verbatim>\<open>TypeError\<close> for a value that is not iterable.
\<close>

fun py_contains :: "string \<Rightarrow> node \<Rightarrow> py_error + bool" where
  "py_contains seg (Dict k m) = Inr (fmlookup m seg \<noteq> None)"
| "py_contains seg (String s) = Inr (sublist seg s)"
| "py_contains seg (Array xs) = Inr (String seg \<in> set xs)"
| "py_contains seg v = Inl TypeError"

text \<open>\<^verbatim>\<open>current[seg]\<close> with a \<^verbatim>\<open>str\<close> index.\<close>

fun py_getitem :: "node \<Rightarrow> string \<Rightarrow> py_error + node" where
  "py_getitem (Dict k m) seg = (case fmlookup m seg of None \<Rightarrow> Inl KeyError | Some v \<Rightarrow> Inr v)"
| "py_getitem v seg = Inl TypeError"

text \<open>
  \<^verbatim>\<open>current[seg] = v\<close>, giving the new state of \<open>current\<close>. tomlkit refuses a table (an
  instance of \<^verbatim>\<open>tomlkit.items.Table\<close>) as a value inside an inline table: the assignment
  raises a \<^verbatim>\<open>ValueError\<close> and stores nothing.
\<close>

fun py_setitem :: "node \<Rightarrow> string \<Rightarrow> node \<Rightarrow> py_error + node" where
  "py_setitem (Dict k m) seg v =
     (if k = KInlineTable \<and> is_table v then Inl ValueError
      else Inr (Dict k (fmupd seg v m)))"
| "py_setitem c seg v = Inl TypeError"

text \<open>\<^verbatim>\<open>del current[seg]\<close>, giving the new state of \<open>current\<close>.\<close>

fun py_delitem :: "node \<Rightarrow> string \<Rightarrow> py_error + node" where
  "py_delitem (Dict k m) seg =
     (if fmlookup m seg = None then Inl KeyError else Inr (Dict k (fmdrop seg m)))"
| "py_delitem c seg = Inl TypeError"

text \<open>
  \<^verbatim>\<open>current = current[seg]\<close> makes \<open>current\<close> a reference into its parent, so what the
  loop then does to \<open>current\<close> is visible in the parent: the parent with the new state of
  its child. Nothing is assigned in the parent.
\<close>

fun write_back :: "node \<Rightarrow> string \<Rightarrow> node \<Rightarrow> node" where
  "write_back (Dict k m) seg child = Dict k (fmupd seg child m)"
| "write_back c seg child = c"

section \<open>Strings\<close>

text \<open>\<^verbatim>\<open>str.isspace\<close> on a code point below 256.\<close>

definition py_isspace :: "char \<Rightarrow> bool" where
  "py_isspace c =
     (let n = (of_char c :: nat)
      in (9 \<le> n \<and> n \<le> 13) \<or> (28 \<le> n \<and> n \<le> 32) \<or> n = 133 \<or> n = 160)"

text \<open>\<^verbatim>\<open>s.strip()\<close>\<close>

definition strip :: "string \<Rightarrow> string" where
  "strip s = rev (dropWhile py_isspace (rev (dropWhile py_isspace s)))"

text \<open>\<^verbatim>\<open>s.lower()\<close> on code points below 256.\<close>

definition lower_char :: "char \<Rightarrow> char" where
  "lower_char c =
     (let n = (of_char c :: nat)
      in if (65 \<le> n \<and> n \<le> 90) \<or> (192 \<le> n \<and> n \<le> 222 \<and> n \<noteq> 215)
         then char_of (n + 32) else c)"

definition lower :: "string \<Rightarrow> string" where
  "lower s = map lower_char s"

text \<open>\<^verbatim>\<open>key_path.split('.')\<close>: never empty, one more piece than there are dots.\<close>

fun split_dot :: "string \<Rightarrow> string list" where
  "split_dot [] = [[]]"
| "split_dot (c # cs) =
     (if c = CHR ''.'' then [] # split_dot cs
      else (case split_dot cs of [] \<Rightarrow> [[c]] | w # ws \<Rightarrow> (c # w) # ws))"

text \<open>\<^verbatim>\<open>[seg.strip() for seg in key_path.split('.') if seg.strip()]\<close>\<close>

definition parse_key_path :: "string \<Rightarrow> string list" where
  "parse_key_path key_path = filter (\<lambda>seg. seg \<noteq> []) (map strip (split_dot key_path))"

section \<open>The path functions\<close>

text \<open>The loop of \<^verbatim>\<open>get_nested_value\<close>.\<close>

fun get_loop :: "node \<Rightarrow> string list \<Rightarrow> py_error + node" where
  "get_loop current [] = Inr current"
| "get_loop current (seg # segs) =
     (case py_contains seg current of
        Inl e \<Rightarrow> Inl e
      | Inr found \<Rightarrow>
          if \<not> found then Inl KeyError
          else (case py_getitem current seg of
                  Inl e \<Rightarrow> Inl e
                | Inr nxt \<Rightarrow> get_loop nxt segs))"

definition get_nested_value :: "node \<Rightarrow> string \<Rightarrow> py_error + node" where
  "get_nested_value data key_path = get_loop data (parse_key_path key_path)"

text \<open>
  The test \<^verbatim>\<open>seg not in current or not isinstance(current[seg], (dict, tomlkit.items.Table))\<close>
  of \<^verbatim>\<open>set_nested_value\<close> and \<^verbatim>\<open>remove_nested_key\<close>; \<^verbatim>\<open>or\<close> does not evaluate its second
  operand when the first is true.
\<close>

definition missing_or_not_dict :: "node \<Rightarrow> string \<Rightarrow> py_error + bool" where
  "missing_or_not_dict current seg =
     (case py_contains seg current of
        Inl e \<Rightarrow> Inl e
      | Inr found \<Rightarrow>
          if \<not> found then Inr True
          else (case py_getitem current seg of
                  Inl e \<Rightarrow> Inl e
                | Inr x \<Rightarrow> Inr (\<not> is_dict x)))"

text \<open>
  A function that mutates the document returns the exception it raised, if any, and the
  state of the object it was given when it returned or raised.

  The loop of \<^verbatim>\<open>set_nested_value\<close> over \<^verbatim>\<open>segments[:-1]\<close>, then the assignment to
  \<^verbatim>\<open>current[segments[-1]]\<close>.
\<close>

fun set_loop :: "node \<Rightarrow> string list \<Rightarrow> string \<Rightarrow> node \<Rightarrow> py_error option \<times> node" where
  "set_loop current [] last_key v =
     (case py_setitem current last_key v of
        Inl e \<Rightarrow> (Some e, current)
      | Inr c \<Rightarrow> (None, c))"
| "set_loop current (seg # segs) last_key v =
     (case missing_or_not_dict current seg of
        Inl e \<Rightarrow> (Some e, current)
      | Inr replace \<Rightarrow>
          (case (if replace then py_setitem current seg (Dict KTable fmempty)
                 else Inr current) of
             Inl e \<Rightarrow> (Some e, current)
           | Inr cur1 \<Rightarrow>
               (case py_getitem cur1 seg of
                  Inl e \<Rightarrow> (Some e, cur1)
                | Inr child \<Rightarrow>
                    (case set_loop child segs last_key v of
                       (err, child') \<Rightarrow> (err, write_back cur1 seg child')))))"

text \<open>\<^verbatim>\<open>segments[-1]\<close> raises \<^verbatim>\<open>IndexError\<close> on an empty list.\<close>

definition set_nested_value :: "node \<Rightarrow> string \<Rightarrow> node \<Rightarrow> py_error option \<times> node" where
  "set_nested_value data key_path v =
     (let segments = parse_key_path key_path
      in if segments = [] then (Some IndexError, data)
         else set_loop data (butlast segments) (last segments) v)"

text \<open>The loop of \<^verbatim>\<open>remove_nested_key\<close>, then the test and the deletion of the last key.\<close>

fun remove_loop :: "node \<Rightarrow> string list \<Rightarrow> string \<Rightarrow> py_error option \<times> node" where
  "remove_loop current [] last_key =
     (case py_contains last_key current of
        Inl e \<Rightarrow> (Some e, current)
      | Inr found \<Rightarrow>
          if \<not> found then (Some KeyError, current)
          else (case py_delitem current last_key of
                  Inl e \<Rightarrow> (Some e, current)
                | Inr c \<Rightarrow> (None, c)))"
| "remove_loop current (seg # segs) last_key =
     (case missing_or_not_dict current seg of
        Inl e \<Rightarrow> (Some e, current)
      | Inr bad \<Rightarrow>
          if bad then (Some KeyError, current)
          else (case py_getitem current seg of
                  Inl e \<Rightarrow> (Some e, current)
                | Inr child \<Rightarrow>
                    (case remove_loop child segs last_key of
                       (err, child') \<Rightarrow> (err, write_back current seg child'))))"

definition remove_nested_key :: "node \<Rightarrow> string \<Rightarrow> py_error option \<times> node" where
  "remove_nested_key data key_path =
     (let segments = parse_key_path key_path
      in if segments = [] then (Some IndexError, data)
         else remove_loop data (butlast segments) (last segments))"

text \<open>\<^verbatim>\<open>rename_nested_key\<close>: the three calls in a row, an exception ending the sequence.\<close>

definition rename_nested_key :: "node \<Rightarrow> string \<Rightarrow> string \<Rightarrow> py_error option \<times> node" where
  "rename_nested_key data old_path new_path =
     (case get_nested_value data old_path of
        Inl e \<Rightarrow> (Some e, data)
      | Inr old_val \<Rightarrow>
          (case remove_nested_key data old_path of
             (Some e, data1) \<Rightarrow> (Some e, data1)
           | (None, data1) \<Rightarrow> set_nested_value data1 new_path old_val))"

section \<open>Deep merge\<close>

text \<open>The items of a mapping.\<close>

fun table_items :: "node \<Rightarrow> (string, node) fmap" where
  "table_items (Dict k m) = m"
| "table_items v = fmempty"

text \<open>
  \<^verbatim>\<open>deep_merge_tomlkit\<close> mutates \<open>target\<close> in place and returns a value: the model gives
  the new state of \<open>target\<close> and the value returned. The recursive call of the source
  drops the value returned and relies on the mutation of \<^verbatim>\<open>target[key]\<close>. The loop over
  \<^verbatim>\<open>source.items()\<close> is a fold on the items of \<open>target\<close>; it visits every key of
  \<open>source\<close> once, here in the order of the keys. The target is a table, not an inline
  table, so its assignments do not raise.
\<close>

function deep_merge_tomlkit :: "node \<Rightarrow> node \<Rightarrow> node \<times> node" where
  "deep_merge_tomlkit target source =
     (if is_table target \<and> is_table source
      then (let target' = Dict KTable
                  (foldl (\<lambda>titems (key, val).
                            case fmlookup titems key of
                              Some tv \<Rightarrow>
                                if is_table tv \<and> is_table val
                                then fmupd key (fst (deep_merge_tomlkit tv val)) titems
                                else fmupd key val titems
                            | None \<Rightarrow> fmupd key val titems)
                     (table_items target)
                     (sorted_list_of_fmap (table_items source)))
            in (target', target'))
      else (target, source))"
  by pat_completeness auto
termination
proof (relation "measure (\<lambda>(t, s). size s)")
  show "wf (measure (\<lambda>(t, s). size s))"
    by simp
next
  fix target source :: node and item :: "string \<times> node"
    and titems :: "(string, node) fmap" and key val tv
  assume tables: "is_table target \<and> is_table source"
    and item: "item \<in> set (sorted_list_of_fmap (table_items source))"
    and kv: "(key, val) = item"
  from tables obtain m where source: "source = Dict KTable m"
    by (cases source) auto
  from item kv source have "fmlookup m key = Some val"
    by (auto simp: sorted_list_of_fmap_def fmlookup_dom_iff)
  then have mem: "(key, val) \<in> fset (fset_of_fmap m)"
    by simp
  have "Suc (size val) \<le> (\<Sum>x\<in>fset (fset_of_fmap m). Suc (case x of (a, b) \<Rightarrow> size b))"
    using member_le_sum [OF mem, of "\<lambda>x. Suc (case x of (a, b) \<Rightarrow> size b)"] by simp
  with source show "((tv, val), (target, source)) \<in> measure (\<lambda>(t, s). size s)"
    by simp
qed

section \<open>Coercion of a command-line argument\<close>

text \<open>
  The blanks that \<^verbatim>\<open>int\<close> and \<^verbatim>\<open>float\<close> skip around a number: the six ASCII blanks, and
  the blanks beyond ASCII, which the conversion first turns into spaces. The separators
  U+001C to U+001F, which \<^verbatim>\<open>str.strip\<close> removes, are not among them.
\<close>

definition number_space :: "char \<Rightarrow> bool" where
  "number_space c =
     (let n = (of_char c :: nat)
      in (9 \<le> n \<and> n \<le> 13) \<or> n = 32 \<or> n = 133 \<or> n = 160)"

definition number_strip :: "string \<Rightarrow> string" where
  "number_strip s = rev (dropWhile number_space (rev (dropWhile number_space s)))"

text \<open>A decimal digit, and the number a string of digits and underscores denotes.\<close>

definition is_digit :: "char \<Rightarrow> bool" where
  "is_digit c = (let n = (of_char c :: nat) in 48 \<le> n \<and> n \<le> 57)"

definition digits_value :: "string \<Rightarrow> nat" where
  "digits_value s = foldl (\<lambda>a c. 10 * a + (of_char c - 48)) 0 (filter is_digit s)"

text \<open>
  Python's \<^verbatim>\<open>digitpart\<close>: one digit or more, a single underscore allowed between two
  digits.
\<close>

fun digitpart :: "string \<Rightarrow> bool" where
  "digitpart [] = False"
| "digitpart [c] = is_digit c"
| "digitpart (c # d # cs) =
     (is_digit c \<and> (if d = CHR ''_'' then digitpart cs else digitpart (d # cs)))"

text \<open>An optional sign in front: whether it is a minus, and the rest.\<close>

definition split_sign :: "string \<Rightarrow> bool \<times> string" where
  "split_sign s =
     (case s of
        [] \<Rightarrow> (False, s)
      | c # r \<Rightarrow>
          if c = CHR ''-'' then (True, r)
          else if c = CHR ''+'' then (False, r)
          else (False, s))"

text \<open>
  \<^verbatim>\<open>int(raw_value)\<close>, in base 10: \<open>None\<close> is its \<^verbatim>\<open>ValueError\<close>, which it also raises
  for a literal of more than 4300 digits (the interpreter's default limit).
\<close>

definition py_int :: "string \<Rightarrow> int option" where
  "py_int raw =
     (case split_sign (number_strip raw) of
        (neg, body) \<Rightarrow>
          if digitpart body \<and> length (filter is_digit body) \<le> 4300
          then Some (if neg then - int (digits_value body) else int (digits_value body))
          else None)"

text \<open>The text before the first character that satisfies \<open>P\<close>, and the text after it.\<close>

definition split_first :: "(char \<Rightarrow> bool) \<Rightarrow> string \<Rightarrow> string \<times> string option" where
  "split_first P s =
     (takeWhile (\<lambda>c. \<not> P c) s,
      case dropWhile (\<lambda>c. \<not> P c) s of [] \<Rightarrow> None | c # r \<Rightarrow> Some r)"

text \<open>
  The exponent of a decimal literal: absent, or an optional sign and a \<open>digitpart\<close>.
\<close>

definition exponent :: "string option \<Rightarrow> int option" where
  "exponent ex =
     (case ex of
        None \<Rightarrow> Some 0
      | Some e \<Rightarrow>
          (case split_sign e of
             (neg, body) \<Rightarrow>
               if digitpart body
               then Some (if neg then - int (digits_value body) else int (digits_value body))
               else None))"

text \<open>
  An unsigned decimal literal of \<^verbatim>\<open>float\<close>: digits with an optional fraction, or a
  fraction alone, and an optional exponent.
\<close>

definition decimal :: "string \<Rightarrow> rat option" where
  "decimal body =
     (case split_first (\<lambda>c. c = CHR ''e'' \<or> c = CHR ''E'') body of
        (mant, ex) \<Rightarrow>
          (case split_first (\<lambda>c. c = CHR ''.'') mant of
             (ip, fp) \<Rightarrow>
               let frac = (case fp of None \<Rightarrow> [] | Some f \<Rightarrow> f);
                   ok = (if ip = [] then fp \<noteq> None \<and> digitpart frac
                         else digitpart ip \<and> (frac = [] \<or> digitpart frac))
               in if \<not> ok then None
                  else (case exponent ex of
                          None \<Rightarrow> None
                        | Some e \<Rightarrow>
                            let m = of_nat (digits_value (ip @ frac)) :: rat;
                                p = e - int (length (filter is_digit frac))
                            in Some (if 0 \<le> p then m * 10 ^ nat p else m / 10 ^ nat (- p)))))"

text \<open>
  The conversion of a number that is not negative to binary64, at the two ends of the
  range: from half-way between the largest finite number and \<open>2 ^ 1024\<close> it gives
  infinity, up to half of the smallest positive number it gives zero; \<open>None\<close> is
  infinity.
\<close>

definition to_binary64 :: "rat \<Rightarrow> rat option" where
  "to_binary64 q =
     (if 2 ^ 1024 - 2 ^ 970 \<le> q then None
      else if q * 2 ^ 1075 \<le> 1 then Some 0
      else Some q)"

text \<open>\<^verbatim>\<open>float(raw_value)\<close>: \<open>None\<close> is its \<^verbatim>\<open>ValueError\<close>.\<close>

definition py_float :: "string \<Rightarrow> pyfloat option" where
  "py_float raw =
     (case split_sign (number_strip raw) of
        (neg, body) \<Rightarrow>
          let low = lower body
          in if low = ''inf'' \<or> low = ''infinity'' then Some (Infinity neg)
             else if low = ''nan'' then Some NaN
             else (case decimal body of
                     None \<Rightarrow> None
                   | Some q \<Rightarrow>
                       (case to_binary64 q of
                          None \<Rightarrow> Some (Infinity neg)
                        | Some r \<Rightarrow> Some (Finite (if neg then - r else r)))))"

text \<open>\<^verbatim>\<open>s.startswith("{") or s.startswith("[")\<close>\<close>

definition starts_structured :: "string \<Rightarrow> bool" where
  "starts_structured s = (case s of [] \<Rightarrow> False | c # r \<Rightarrow> c = CHR ''{'' \<or> c = CHR ''['')"

text \<open>
  \<^verbatim>\<open>parse_snippet\<close>. The TOML parser is a library outside the repository, so it is a
  parameter: \<open>toml_x text\<close> is \<^verbatim>\<open>tomlkit.parse(text)["x"]\<close>, and \<open>None\<close> when that raises
  an exception, which \<^verbatim>\<open>parse_snippet\<close> catches.
\<close>

definition parse_snippet :: "(string \<Rightarrow> node option) \<Rightarrow> string \<Rightarrow> node option" where
  "parse_snippet toml_x snippet_str =
     (let s = strip snippet_str
      in if starts_structured s then toml_x (''x = '' @ s) else None)"

text \<open>\<^verbatim>\<open>parse_value\<close>\<close>

definition parse_value :: "(string \<Rightarrow> node option) \<Rightarrow> string \<Rightarrow> node" where
  "parse_value toml_x raw_value =
     (let val = lower (strip raw_value)
      in if val = ''true'' then Boolean True
         else if val = ''false'' then Boolean False
         else (case parse_snippet toml_x raw_value of
                 Some snippet \<Rightarrow> snippet
               | None \<Rightarrow>
                   (case py_int raw_value of
                      Some i \<Rightarrow> Integer i
                    | None \<Rightarrow>
                        (case py_float raw_value of
                           Some f \<Rightarrow> Float f
                         | None \<Rightarrow> String raw_value))))"

section \<open>The path operations in the words of the specification\<close>

text \<open>
  The specification's \<^verbatim>\<open>ensurePath\<close> followed by the assignment: walk all but the last
  segment; a segment that is missing, or present but not a table, is replaced by a new
  empty table; then descend; the value is assigned at the last segment of the table
  reached.
\<close>

fun spec_set :: "node \<Rightarrow> string list \<Rightarrow> node \<Rightarrow> node" where
  "spec_set (Dict k m) [final] v = Dict k (fmupd final v m)"
| "spec_set (Dict k m) (seg # segs) v =
     (let child = (case fmlookup m seg of
                     None \<Rightarrow> Dict KTable fmempty
                   | Some c \<Rightarrow> if is_dict c then c else Dict KTable fmempty)
      in Dict k (fmupd seg (spec_set child segs v) m))"
| "spec_set d segs v = d"

text \<open>
  The specification's \<^verbatim>\<open>removePath\<close>: walk to the parent table, failing when a segment
  on the way is missing or is not a table; fail when the last segment is absent from the
  parent; otherwise delete it. \<open>None\<close> is the failure.
\<close>

fun spec_remove :: "node \<Rightarrow> string list \<Rightarrow> node option" where
  "spec_remove (Dict k m) [final] =
     (if fmlookup m final = None then None else Some (Dict k (fmdrop final m)))"
| "spec_remove (Dict k m) (seg # segs) =
     (case fmlookup m seg of
        None \<Rightarrow> None
      | Some c \<Rightarrow>
          if is_dict c
          then map_option (\<lambda>c'. Dict k (fmupd seg c' m)) (spec_remove c segs)
          else None)"
| "spec_remove d segs = None"

section \<open>Documents used as examples\<close>

text \<open>A part of the document of the test suite.\<close>

definition sample :: node where
  "sample = Dict KContainer (fmap_of_list
     [(''server'', Dict KTable (fmap_of_list
         [(''host'', String ''localhost''),
          (''port'', Integer 8080),
          (''ssl'', Dict KTable (fmap_of_list
             [(''enabled'', Boolean False), (''certificate'', String ''cert.pem'')]))])),
      (''database'', Dict KTable (fmap_of_list
         [(''user'', String ''admin''), (''password'', String ''secret'')])),
      (''feature_flags'', Dict KTable (fmap_of_list
         [(''new_login'', Boolean True),
          (''beta_testers'', Array [String ''alice'', String ''bob''])]))])"

text \<open>A small document.\<close>

definition small_db :: node where
  "small_db = Dict KContainer (fmap_of_list
     [(''database'', Dict KTable (fmap_of_list
         [(''user'', String ''admin''), (''password'', String ''secret'')]))])"

text \<open>
  The document \<^verbatim>\<open>a = 1\<close>, \<^verbatim>\<open>it = {x = 1}\<close>: a key and an inline table with one key.
\<close>

definition inline_doc :: node where
  "inline_doc = Dict KContainer (fmap_of_list
     [(''a'', Integer 1),
      (''it'', Dict KInlineTable (fmap_of_list [(''x'', Integer 1)]))])"

text \<open>
  What \<^verbatim>\<open>to_tomlkit_item\<close> makes of the JSON text \<^verbatim>\<open>{"database": {"new_key": 999}}\<close>.
\<close>

definition bulk_update :: node where
  "bulk_update = Dict KTable (fmap_of_list
     [(''database'', Dict KTable (fmap_of_list [(''new_key'', Integer 999)]))])"

text \<open>
  A parser that knows one literal and rejects every other text, to run \<open>parse_value\<close>
  on concrete arguments.
\<close>

definition toml_stub :: "string \<Rightarrow> node option" where
  "toml_stub text =
     (if text = ''x = [1,2,3]'' then Some (Array [Integer 1, Integer 2, Integer 3]) else None)"

section \<open>Lemmas on the loops\<close>

declare deep_merge_tomlkit.simps [simp del]

lemmas string_defs = strip_def lower_def lower_char_def py_isspace_def

lemmas number_defs = py_int_def py_float_def split_sign_def is_digit_def decimal_def
  split_first_def exponent_def digits_value_def number_strip_def number_space_def
  to_binary64_def

lemmas path_defs = parse_key_path_def strip_def py_isspace_def

lemmas eval_defs = rename_nested_key_def get_nested_value_def remove_nested_key_def
  set_nested_value_def missing_or_not_dict_def

lemma is_dict_iff: "is_dict d \<longleftrightarrow> (\<exists>k m. d = Dict k m)"
  by (cases d) auto

lemma fmupd_same: "fmlookup m k = Some v \<Longrightarrow> fmupd k v m = m"
  by (rule fmap_ext) auto

lemma get_loop_Inr_dict: "get_loop cur (seg # segs) = Inr v \<Longrightarrow> is_dict cur"
  by (cases cur) (auto split: if_splits)

lemma get_loop_dict:
  "get_loop (Dict k m) (seg # segs) =
     (case fmlookup m seg of None \<Rightarrow> Inl KeyError | Some c \<Rightarrow> get_loop c segs)"
  by (auto split: option.splits)

lemma get_loop_empty_table: "segs \<noteq> [] \<Longrightarrow> get_loop (Dict k fmempty) segs = Inl KeyError"
  by (cases segs) auto

text \<open>The walk goes segment by segment: a path in two parts is two walks in a row.\<close>

lemma get_loop_append:
  "get_loop cur (segs @ more) =
     (case get_loop cur segs of Inl e \<Rightarrow> Inl e | Inr nxt \<Rightarrow> get_loop nxt more)"
proof (induction segs arbitrary: cur)
  case Nil
  then show ?case by simp
next
  case (Cons seg segs)
  show ?case
  proof (cases "py_contains seg cur")
    case (Inl e)
    then show ?thesis by simp
  next
    case (Inr found)
    show ?thesis
    proof (cases "py_getitem cur seg")
      case (Inl e)
      with Inr show ?thesis by simp
    next
      case getitem: (Inr nxt)
      with Inr Cons.IH[of nxt] show ?thesis by simp
    qed
  qed
qed

text \<open>In a table that the loop has just created, \<open>set_nested_value\<close> goes on without raising.\<close>

lemma set_loop_new_table:
  "set_loop (Dict KTable fmempty) segs last_key v =
     (None, spec_set (Dict KTable fmempty) (segs @ [last_key]) v)"
proof (induction segs)
  case Nil
  then show ?case by simp
next
  case (Cons seg segs)
  obtain y ys where app: "segs @ [last_key] = y # ys" by (cases segs) auto
  with Cons show ?case
    by (simp add: missing_or_not_dict_def)
qed

text \<open>When the loop of \<open>set_nested_value\<close> returns normally, it has computed \<open>spec_set\<close>.\<close>

lemma set_loop_success:
  "fst (set_loop cur segs last_key v) = None \<Longrightarrow>
   is_dict cur \<and> snd (set_loop cur segs last_key v) = spec_set cur (segs @ [last_key]) v"
proof (induction segs arbitrary: cur)
  case Nil
  then show ?case by (cases cur) (auto split: if_splits)
next
  case (Cons seg segs)
  from Cons.prems obtain k m where cur: "cur = Dict k m"
    by (cases cur) (auto simp: missing_or_not_dict_def split: if_splits)
  obtain y ys where app: "segs @ [last_key] = y # ys" by (cases segs) auto
  let ?new = "Dict KTable fmempty"
  show ?case
  proof (cases "case fmlookup m seg of None \<Rightarrow> True | Some x \<Rightarrow> \<not> is_dict x")
    case True
    then have rep: "missing_or_not_dict cur seg = Inr True"
      using cur by (auto simp: missing_or_not_dict_def split: option.splits)
    show ?thesis
    proof (cases "k = KInlineTable")
      case inl: True
      with rep cur Cons.prems show ?thesis by simp
    next
      case False
      with rep cur True app show ?thesis
        by (auto simp: set_loop_new_table Let_def split: option.splits)
    qed
  next
    case False
    then obtain x where x: "fmlookup m seg = Some x" "is_dict x"
      by (auto split: option.splits)
    with cur have rep: "missing_or_not_dict cur seg = Inr False"
      by (simp add: missing_or_not_dict_def)
    from rep cur x Cons.prems have ok: "fst (set_loop x segs last_key v) = None"
      by (simp split: prod.splits)
    from Cons.IH[OF ok] rep cur x app show ?thesis
      by (auto simp: Let_def split: prod.splits)
  qed
qed

text \<open>When the loop of \<open>set_nested_value\<close> raises, it has changed nothing.\<close>

lemma set_loop_failure:
  "fst (set_loop cur segs last_key v) = Some e \<Longrightarrow> snd (set_loop cur segs last_key v) = cur"
proof (induction segs arbitrary: cur)
  case Nil
  then show ?case by (cases "py_setitem cur last_key v") auto
next
  case (Cons seg segs)
  show ?case
  proof (cases "missing_or_not_dict cur seg")
    case (Inl e')
    then show ?thesis by simp
  next
    case (Inr replace)
    show ?thesis
    proof (cases replace)
      case True
      show ?thesis
      proof (cases "py_setitem cur seg (Dict KTable fmempty)")
        case (Inl e')
        with Inr True show ?thesis by simp
      next
        case created: (Inr cur1)
        then obtain k m where "cur = Dict k m" "cur1 = Dict k (fmupd seg (Dict KTable fmempty) m)"
          by (cases cur) (auto split: if_splits)
        with Inr True created Cons.prems show ?thesis
          by (simp add: set_loop_new_table)
      qed
    next
      case False
      with Inr obtain k m x where cur: "cur = Dict k m" and x: "fmlookup m seg = Some x"
        by (cases cur) (auto simp: missing_or_not_dict_def split: if_splits option.splits)
      from Inr False cur x Cons.prems have f: "fst (set_loop x segs last_key v) = Some e"
        by (simp split: prod.splits)
      from Cons.IH[OF f] Inr False cur x show ?thesis
        by (auto simp: fmupd_same split: prod.splits)
    qed
  qed
qed

lemma set_nested_value_success:
  "fst (set_nested_value doc P V) = None \<Longrightarrow>
   is_dict doc \<and> parse_key_path P \<noteq> [] \<and>
   snd (set_nested_value doc P V) = spec_set doc (parse_key_path P) V"
  using set_loop_success [of doc "butlast (parse_key_path P)" "last (parse_key_path P)" V]
  by (auto simp: set_nested_value_def Let_def split: if_splits)

lemma set_nested_value_failure:
  "fst (set_nested_value doc P V) = Some e \<Longrightarrow> snd (set_nested_value doc P V) = doc"
  using set_loop_failure [of doc "butlast (parse_key_path P)" "last (parse_key_path P)" V e]
  by (auto simp: set_nested_value_def Let_def split: if_splits)

text \<open>Reading back along the path that was written.\<close>

lemma get_spec_set:
  "is_dict cur \<Longrightarrow> segs \<noteq> [] \<Longrightarrow> get_loop (spec_set cur segs v) segs = Inr v"
proof (induction segs arbitrary: cur)
  case Nil
  then show ?case by simp
next
  case (Cons seg segs)
  from Cons.prems obtain k m where cur: "cur = Dict k m" by (auto simp: is_dict_iff)
  show ?case
  proof (cases segs)
    case Nil
    with cur show ?thesis by simp
  next
    case (Cons y ys)
    with cur Cons.IH[of "Dict KTable fmempty"] Cons.IH show ?thesis
      by (auto simp: Let_def split: option.splits)
  qed
qed

text \<open>
  Reading along a path that parts from the written one: the result is the one before the
  write, or a \<open>KeyError\<close> inside a table that the write created.
\<close>

lemma get_spec_set_diverge:
  "is_dict cur \<Longrightarrow> \<not> prefix os ns \<Longrightarrow> \<not> prefix ns os \<Longrightarrow>
   get_loop (spec_set cur ns v) os = Inl KeyError \<or>
   get_loop (spec_set cur ns v) os = get_loop cur os"
proof (induction ns arbitrary: cur os)
  case Nil
  then show ?case by simp
next
  case (Cons n ns')
  from Cons.prems obtain k m where cur: "cur = Dict k m" by (auto simp: is_dict_iff)
  from Cons.prems obtain o' os' where os: "os = o' # os'" by (cases os) auto
  show ?case
  proof (cases "o' = n")
    case False
    with cur os show ?thesis
      by (cases ns') (auto simp: Let_def)
  next
    case True
    with Cons.prems os have div: "\<not> prefix os' ns'" "\<not> prefix ns' os'" by auto
    then obtain n2 ns2 where ns': "ns' = n2 # ns2" by (cases ns') auto
    from div have os': "os' \<noteq> []" by auto
    let ?child = "case fmlookup m n of None \<Rightarrow> Dict KTable fmempty
                   | Some c \<Rightarrow> if is_dict c then c else Dict KTable fmempty"
    have dc: "is_dict ?child" by (auto split: option.splits)
    have eq: "get_loop (spec_set cur (n # ns') v) os = get_loop (spec_set ?child ns' v) os'"
      using cur os True ns' by (simp add: Let_def)
    from Cons.IH[OF dc div] have
      "get_loop (spec_set ?child ns' v) os' = Inl KeyError \<or>
       get_loop (spec_set ?child ns' v) os' = get_loop ?child os'" .
    moreover have "get_loop ?child os' = Inl KeyError \<or> get_loop ?child os' = get_loop cur os"
      using cur os True os'
      by (auto split: option.splits simp: get_loop_empty_table get_loop_dict
          simp del: get_loop.simps)
    ultimately show ?thesis using eq by auto
  qed
qed

text \<open>On a mapping the loop of \<open>remove_nested_key\<close> computes \<open>spec_remove\<close>.\<close>

lemma remove_loop_spec:
  "is_dict cur \<Longrightarrow>
   remove_loop cur segs last_key =
     (case spec_remove cur (segs @ [last_key]) of
        None \<Rightarrow> (Some KeyError, cur)
      | Some d' \<Rightarrow> (None, d'))"
proof (induction segs arbitrary: cur)
  case Nil
  then show ?case by (auto simp: is_dict_iff)
next
  case (Cons seg segs)
  from Cons.prems obtain k m where cur: "cur = Dict k m" by (auto simp: is_dict_iff)
  obtain y ys where app: "segs @ [last_key] = y # ys" by (cases segs) auto
  show ?case
  proof (cases "fmlookup m seg")
    case None
    with cur app show ?thesis
      by (simp add: missing_or_not_dict_def)
  next
    case (Some x)
    show ?thesis
    proof (cases "is_dict x")
      case True
      with cur Some app Cons.IH[of x] show ?thesis
        by (auto simp: missing_or_not_dict_def fmupd_same split: option.splits)
    next
      case False
      with cur Some app show ?thesis
        by (simp add: missing_or_not_dict_def)
    qed
  qed
qed

lemma remove_nested_key_spec:
  "is_dict doc \<Longrightarrow> parse_key_path P \<noteq> [] \<Longrightarrow>
   remove_nested_key doc P =
     (case spec_remove doc (parse_key_path P) of
        None \<Rightarrow> (Some KeyError, doc)
      | Some d' \<Rightarrow> (None, d'))"
  by (simp add: remove_nested_key_def Let_def remove_loop_spec)

lemma get_after_spec_remove:
  "spec_remove cur segs = Some d' \<Longrightarrow> get_loop d' segs = Inl KeyError"
proof (induction cur segs arbitrary: d' rule: spec_remove.induct)
  case (1 k m final)
  then show ?case by (auto split: if_splits)
next
  case (2 k m seg v va)
  then show ?case by (auto split: option.splits if_splits)
qed auto

text \<open>A path that can be read can be removed, and a mapping is left.\<close>

lemma get_then_spec_remove:
  "get_loop cur segs = Inr v \<Longrightarrow> segs \<noteq> [] \<Longrightarrow>
   \<exists>d'. spec_remove cur segs = Some d' \<and> is_dict d'"
proof (induction segs arbitrary: cur)
  case Nil
  then show ?case by simp
next
  case (Cons seg segs)
  from Cons.prems(1) have "is_dict cur" by (rule get_loop_Inr_dict)
  then obtain k m where cur: "cur = Dict k m" by (auto simp: is_dict_iff)
  show ?case
  proof (cases segs)
    case Nil
    with cur Cons.prems show ?thesis by (auto split: option.splits if_splits)
  next
    case (Cons y ys)
    from Cons.prems(1) cur obtain c where c: "fmlookup m seg = Some c" "get_loop c segs = Inr v"
      by (auto split: option.splits if_splits)
    from c(2) Cons have "is_dict c" by (metis get_loop_Inr_dict)
    moreover from Cons.IH[OF c(2)] Cons obtain d' where "spec_remove c segs = Some d'" by auto
    ultimately show ?thesis using cur c Cons by auto
  qed
qed

section \<open>Lemmas on the merge\<close>

text \<open>The value of every key after the loop of the merge.\<close>

lemma merge_fold_lookup:
  fixes items :: "(string \<times> node) list"
  assumes step: "step = (\<lambda>titems (key, val).
               case fmlookup titems key of
                 Some tv \<Rightarrow>
                   if is_table tv \<and> is_table val
                   then fmupd key (fst (deep_merge_tomlkit tv val)) titems
                   else fmupd key val titems
               | None \<Rightarrow> fmupd key val titems)"
    and "distinct (map fst items)"
  shows "fmlookup (foldl step titems items) key =
     (case map_of items key of
        None \<Rightarrow> fmlookup titems key
      | Some sv \<Rightarrow>
          Some (case fmlookup titems key of
                  None \<Rightarrow> sv
                | Some tv \<Rightarrow>
                    if is_table tv \<and> is_table sv then fst (deep_merge_tomlkit tv sv) else sv))"
  using assms(2)
proof (induction items arbitrary: titems)
  case Nil
  then show ?case by simp
next
  case (Cons kv rest)
  obtain k val where kv: "kv = (k, val)" by (cases kv)
  define t' where "t' = step titems (k, val)"
  from Cons.prems kv have dr: "distinct (map fst rest)" and nin: "map_of rest k = None"
    by (auto simp: map_of_eq_None_iff)
  have unfold: "foldl step titems (kv # rest) = foldl step t' rest"
    using kv by (simp add: t'_def)
  have step_rest: "fmlookup (foldl step t' rest) key =
      (case map_of rest key of
        None \<Rightarrow> fmlookup t' key
      | Some sv \<Rightarrow>
          Some (case fmlookup t' key of
                  None \<Rightarrow> sv
                | Some tv \<Rightarrow>
                    if is_table tv \<and> is_table sv then fst (deep_merge_tomlkit tv sv) else sv))"
    by (rule Cons.IH[OF dr])
  show ?case
  proof (cases "key = k")
    case True
    have "fmlookup t' k =
        Some (case fmlookup titems k of
                  None \<Rightarrow> val
                | Some tv \<Rightarrow>
                    if is_table tv \<and> is_table val then fst (deep_merge_tomlkit tv val) else val)"
      by (auto simp: t'_def step split: option.splits)
    with True step_rest nin have "fmlookup (foldl step t' rest) key =
        Some (case fmlookup titems k of
                  None \<Rightarrow> val
                | Some tv \<Rightarrow>
                    if is_table tv \<and> is_table val then fst (deep_merge_tomlkit tv val) else val)"
      by simp
    with True kv show ?thesis unfolding unfold by simp
  next
    case False
    then have "fmlookup t' key = fmlookup titems key"
      by (auto simp: t'_def step split: option.splits)
    with step_rest have "fmlookup (foldl step t' rest) key =
      (case map_of rest key of
        None \<Rightarrow> fmlookup titems key
      | Some sv \<Rightarrow>
          Some (case fmlookup titems key of
                  None \<Rightarrow> sv
                | Some tv \<Rightarrow>
                    if is_table tv \<and> is_table sv then fst (deep_merge_tomlkit tv sv) else sv))"
      by (simp split: option.splits)
    with False kv show ?thesis unfolding unfold by simp
  qed
qed

text \<open>
  On two tables, instances of \<^verbatim>\<open>tomlkit.items.Table\<close>, the merge does what its docstring
  says: the target is changed and returned; a key that the source does not have keeps the
  value of the target; a key of the source has the value of the source, whole, except
  when the target has the key and both values are tables: then it has their merge.
\<close>

lemma deep_merge_tables:
  assumes "is_table target" and "is_table source"
  shows "\<exists>r. deep_merge_tomlkit target source = (Dict KTable r, Dict KTable r) \<and>
     (\<forall>key. fmlookup r key =
        (case fmlookup (table_items source) key of
           None \<Rightarrow> fmlookup (table_items target) key
         | Some sv \<Rightarrow>
             Some (case fmlookup (table_items target) key of
                     None \<Rightarrow> sv
                   | Some tv \<Rightarrow>
                       if is_table tv \<and> is_table sv
                       then fst (deep_merge_tomlkit tv sv) else sv)))"
proof -
  have d: "distinct (map fst (sorted_list_of_fmap (table_items source)))"
    by (simp add: sorted_list_of_fmap_def comp_def sorted_list_of_fset.rep_eq)
  from assms show ?thesis
    by (subst deep_merge_tomlkit.simps) (simp add: Let_def merge_fold_lookup [OF refl d])
qed

text \<open>Every other pair: the source is returned and the target is left as it was.\<close>

lemma deep_merge_not_tables:
  "\<not> (is_table target \<and> is_table source) \<Longrightarrow>
   deep_merge_tomlkit target source = (target, source)"
  by (subst deep_merge_tomlkit.simps) auto

section \<open>Coercion\<close>

text \<open>
  C1. \<open>parse_value\<close> applies its rules in order, whatever the TOML parser does. When the
  trimmed argument, in lower case, is \<^verbatim>\<open>true\<close> or \<^verbatim>\<open>false\<close>, the result is that Boolean.
  Otherwise, when the trimmed argument starts with a brace or a bracket and the parser
  accepts it, the result is the parsed value. Otherwise, also when the parser rejects the
  text, nothing is raised: the result is the integer when the integer parse succeeds,
  else the float when the float parse succeeds, else the argument itself as a string, not
  trimmed and not in lower case. In particular \<^verbatim>\<open>true\<close> gives the Boolean true,
  \<^verbatim>\<open>42\<close> the integer 42, \<^verbatim>\<open>42.5\<close> the float 42.5 and \<^verbatim>\<open>hello\<close> the string
  \<^verbatim>\<open>hello\<close>.
\<close>

theorem parse_value_order:
  "(lower (strip raw) = ''true'' \<longrightarrow> parse_value toml_x raw = Boolean True) \<and>
   (lower (strip raw) = ''false'' \<longrightarrow> parse_value toml_x raw = Boolean False) \<and>
   (lower (strip raw) \<noteq> ''true'' \<and> lower (strip raw) \<noteq> ''false'' \<longrightarrow>
      (starts_structured (strip raw) \<and> toml_x (''x = '' @ strip raw) = Some v \<longrightarrow>
         parse_value toml_x raw = v) \<and>
      (\<not> starts_structured (strip raw) \<or> toml_x (''x = '' @ strip raw) = None \<longrightarrow>
         parse_value toml_x raw =
           (case py_int raw of
              Some i \<Rightarrow> Integer i
            | None \<Rightarrow> (case py_float raw of Some f \<Rightarrow> Float f | None \<Rightarrow> String raw)))) \<and>
   parse_value toml_x ''true'' = Boolean True \<and>
   parse_value toml_x ''42'' = Integer 42 \<and>
   parse_value toml_x ''42.5'' = Float (Finite 42.5) \<and>
   parse_value toml_x ''hello'' = String ''hello''"
proof -
  have a: "parse_value toml_x ''true'' = Boolean True"
    by (simp add: parse_value_def string_defs)
  have b: "parse_value toml_x ''42'' = Integer 42"
    by (simp add: parse_value_def parse_snippet_def starts_structured_def string_defs
        number_defs)
  have c: "parse_value toml_x ''42.5'' = Float (Finite 42.5)"
    by (simp add: parse_value_def parse_snippet_def starts_structured_def string_defs
        number_defs)
  have d: "parse_value toml_x ''hello'' = String ''hello''"
    by (simp add: parse_value_def parse_snippet_def starts_structured_def string_defs
        number_defs)
  have e: "lower (strip raw) = ''true'' \<longrightarrow> parse_value toml_x raw = Boolean True"
    by (simp add: parse_value_def)
  have f: "lower (strip raw) = ''false'' \<longrightarrow> parse_value toml_x raw = Boolean False"
    by (simp add: parse_value_def)
  have g: "lower (strip raw) \<noteq> ''true'' \<and> lower (strip raw) \<noteq> ''false'' \<longrightarrow>
      (starts_structured (strip raw) \<and> toml_x (''x = '' @ strip raw) = Some v \<longrightarrow>
         parse_value toml_x raw = v) \<and>
      (\<not> starts_structured (strip raw) \<or> toml_x (''x = '' @ strip raw) = None \<longrightarrow>
         parse_value toml_x raw =
           (case py_int raw of
              Some i \<Rightarrow> Integer i
            | None \<Rightarrow> (case py_float raw of Some f \<Rightarrow> Float f | None \<Rightarrow> String raw)))"
    by (auto simp: parse_value_def parse_snippet_def Let_def)
  from a b c d e f g show ?thesis by blast
qed

text \<open>
  C1, on concrete arguments: each rule fires, with surrounding blanks and capitals, a
  literal the parser accepts and one it rejects, an integer with a sign and an
  underscore, a float with an exponent, and a string that keeps its capitals and its
  trailing blank.
\<close>

theorem parse_value_order_witness:
  "parse_value toml_stub '' TRUE'' = Boolean True \<and>
   parse_value toml_stub ''False'' = Boolean False \<and>
   parse_value toml_stub '' [1,2,3] '' = Array [Integer 1, Integer 2, Integer 3] \<and>
   parse_value toml_stub ''{a=}'' = String ''{a=}'' \<and>
   parse_value toml_stub '' -1_000 '' = Integer (- 1000) \<and>
   parse_value toml_stub ''1e3'' = Float (Finite 1000) \<and>
   parse_value toml_stub ''Hello World '' = String ''Hello World ''"
proof -
  have 1: "lower (strip '' TRUE'') = ''true''"
    by (simp add: string_defs char_of_eq_iff take_bit_eq_mod)
  have 2: "lower (strip ''False'') = ''false''"
    by (simp add: string_defs char_of_eq_iff take_bit_eq_mod)
  have 3: "lower (strip '' [1,2,3] '') \<noteq> ''true'' \<and> lower (strip '' [1,2,3] '') \<noteq> ''false'' \<and>
      starts_structured (strip '' [1,2,3] '') \<and>
      toml_stub (''x = '' @ strip '' [1,2,3] '') = Some (Array [Integer 1, Integer 2, Integer 3])"
    by (simp add: string_defs starts_structured_def toml_stub_def)
  have 4: "lower (strip ''{a=}'') \<noteq> ''true'' \<and> lower (strip ''{a=}'') \<noteq> ''false'' \<and>
      toml_stub (''x = '' @ strip ''{a=}'') = None \<and>
      py_int ''{a=}'' = None \<and> py_float ''{a=}'' = None"
    by (simp add: string_defs toml_stub_def number_defs)
  have 5: "lower (strip '' -1_000 '') \<noteq> ''true'' \<and> lower (strip '' -1_000 '') \<noteq> ''false'' \<and>
      \<not> starts_structured (strip '' -1_000 '') \<and> py_int '' -1_000 '' = Some (- 1000)"
    by (simp add: string_defs starts_structured_def number_defs)
  have 6: "lower (strip ''1e3'') \<noteq> ''true'' \<and> lower (strip ''1e3'') \<noteq> ''false'' \<and>
      \<not> starts_structured (strip ''1e3'') \<and> py_int ''1e3'' = None \<and>
      py_float ''1e3'' = Some (Finite 1000)"
    by (simp add: string_defs starts_structured_def number_defs)
  have 7: "lower (strip ''Hello World '') \<noteq> ''true'' \<and>
      lower (strip ''Hello World '') \<noteq> ''false'' \<and>
      \<not> starts_structured (strip ''Hello World '') \<and> py_int ''Hello World '' = None \<and>
      py_float ''Hello World '' = None"
    by (simp add: string_defs starts_structured_def number_defs)
  show ?thesis
    using 1 2 3 4 5 6 7
      parse_value_order [of "'' TRUE''" toml_stub]
      parse_value_order [of "''False''" toml_stub]
      parse_value_order [of "'' [1,2,3] ''" toml_stub "Array [Integer 1, Integer 2, Integer 3]"]
      parse_value_order [of "''{a=}''" toml_stub]
      parse_value_order [of "'' -1_000 ''" toml_stub]
      parse_value_order [of "''1e3''" toml_stub]
      parse_value_order [of "''Hello World ''" toml_stub]
    by simp
qed

text \<open>
  C2. The argument \<^verbatim>\<open>[x,y,z]\<close> holds bare words, which the TOML grammar does not
  accept as values, so the parser raises and \<open>parse_snippet\<close> gives \<open>None\<close>. For every
  parser that rejects the text \<^verbatim>\<open>x = [x,y,z]\<close>, \<open>parse_value\<close> returns the argument as
  the string \<^verbatim>\<open>[x,y,z]\<close>, not an array of three strings, and setting a key of a
  document to it and getting the key back yields that string. The root of the document
  is a mapping that is not an inline table, as the root of a parsed document is.
\<close>

theorem bare_words_stay_text:
  assumes "toml_x ''x = [x,y,z]'' = None" and "is_dict doc" and "\<not> is_inline_table doc"
  shows "parse_value toml_x ''[x,y,z]'' = String ''[x,y,z]'' \<and>
         get_nested_value
           (snd (set_nested_value doc ''feature_flags.beta_testers''
                   (parse_value toml_x ''[x,y,z]'')))
           ''feature_flags.beta_testers'' = Inr (String ''[x,y,z]'')"
proof -
  have v: "parse_value toml_x ''[x,y,z]'' = String ''[x,y,z]''"
    using assms(1)
    by (simp add: parse_value_def parse_snippet_def starts_structured_def string_defs
        number_defs)
  have p: "parse_key_path ''feature_flags.beta_testers'' = [''feature_flags'', ''beta_testers'']"
    by (simp add: path_defs)
  from assms(2,3) obtain k m where doc: "doc = Dict k m" "k \<noteq> KInlineTable"
    by (cases doc) auto
  have ok: "fst (set_nested_value doc ''feature_flags.beta_testers'' (String ''[x,y,z]'')) = None"
  proof (cases "fmlookup m ''feature_flags''")
    case None
    with doc show ?thesis
      by (simp add: set_nested_value_def p missing_or_not_dict_def)
  next
    case (Some x)
    with doc show ?thesis
      by (cases x) (simp_all add: set_nested_value_def p missing_or_not_dict_def)
  qed
  from set_nested_value_success [OF ok] have
    "get_nested_value
       (snd (set_nested_value doc ''feature_flags.beta_testers'' (String ''[x,y,z]'')))
       ''feature_flags.beta_testers'' = Inr (String ''[x,y,z]'')"
    by (simp add: get_nested_value_def get_spec_set)
  with v show ?thesis by simp
qed

text \<open>
  C2, on the document of the test suite, with a parser that rejects the text.
\<close>

theorem bare_words_stay_text_witness:
  "toml_stub ''x = [x,y,z]'' = None \<and> is_dict sample \<and> \<not> is_inline_table sample \<and>
   parse_value toml_stub ''[x,y,z]'' = String ''[x,y,z]'' \<and>
   get_nested_value
     (snd (set_nested_value sample ''feature_flags.beta_testers''
             (parse_value toml_stub ''[x,y,z]'')))
     ''feature_flags.beta_testers'' = Inr (String ''[x,y,z]'')"
proof -
  have h1: "toml_stub ''x = [x,y,z]'' = None" by (simp add: toml_stub_def)
  have h2: "is_dict sample" by (simp add: sample_def)
  have h3: "\<not> is_inline_table sample" by (simp add: sample_def)
  from bare_words_stay_text [of toml_stub sample, OF h1 h2 h3] h1 h2 h3 show ?thesis by auto
qed

section \<open>Reading a path\<close>

text \<open>
  C3, as the code has it. \<open>get_nested_value\<close> walks the segments from the root, one
  after the other. With no segment left it returns the node. At a mapping it fails with
  \<open>KeyError\<close> when the segment is not a key, and goes on from the value of the key
  otherwise. At a node that is not a mapping, with a segment left, it always fails, with
  no error of its own for that case: a string that does not contain the segment as a
  substring, and an array with no string element equal to the segment, give the
  \<open>KeyError\<close> of a missing key; a string or an array that does contain it, and every
  other node, give a \<open>TypeError\<close>.
\<close>

theorem get_walk:
  "get_nested_value d P = get_loop d (parse_key_path P) \<and>
   get_loop cur [] = Inr cur \<and>
   get_loop cur (segs @ more) =
     (case get_loop cur segs of Inl e \<Rightarrow> Inl e | Inr nxt \<Rightarrow> get_loop nxt more) \<and>
   get_loop (Dict k m) (seg # segs) =
     (case fmlookup m seg of None \<Rightarrow> Inl KeyError | Some c \<Rightarrow> get_loop c segs) \<and>
   get_loop (String s) (seg # segs) = Inl (if sublist seg s then TypeError else KeyError) \<and>
   get_loop (Array xs) (seg # segs) =
     Inl (if String seg \<in> set xs then TypeError else KeyError) \<and>
   (\<not> is_dict cur \<and> (\<forall>s. cur \<noteq> String s) \<and> (\<forall>xs. cur \<noteq> Array xs) \<longrightarrow>
      get_loop cur (seg # segs) = Inl TypeError)"
proof -
  have root: "get_nested_value d P = get_loop d (parse_key_path P)"
    by (simp add: get_nested_value_def)
  have final: "get_loop cur [] = Inr cur"
    by simp
  have mapping: "get_loop (Dict k m) (seg # segs) =
      (case fmlookup m seg of None \<Rightarrow> Inl KeyError | Some c \<Rightarrow> get_loop c segs)"
    by (rule get_loop_dict)
  have str: "get_loop (String s) (seg # segs) =
      Inl (if sublist seg s then TypeError else KeyError)"
    by simp
  have array: "get_loop (Array xs) (seg # segs) =
      Inl (if String seg \<in> set xs then TypeError else KeyError)"
    by simp
  have scalar: "get_loop cur (seg # segs) = Inl TypeError"
    if "\<not> is_dict cur \<and> (\<forall>s. cur \<noteq> String s) \<and> (\<forall>xs. cur \<noteq> Array xs)"
    using that by (cases cur) auto
  from root final mapping str array scalar get_loop_append [of cur segs more]
  show ?thesis by (intro conjI impI) assumption+
qed

text \<open>
  C3, on the document of the test suite: below the integer \<^verbatim>\<open>server.port\<close> and below the
  string \<^verbatim>\<open>server.host\<close>, whose text contains the segment.
\<close>

theorem get_walk_witness:
  "\<not> is_dict (Integer 8080) \<and> (\<forall>s. Integer 8080 \<noteq> String s) \<and>
   (\<forall>xs. Integer 8080 \<noteq> Array xs) \<and>
   get_loop (Integer 8080) [''x''] = Inl TypeError \<and>
   get_nested_value sample ''server.port.x'' = Inl TypeError \<and>
   get_nested_value sample ''server.host.local'' = Inl TypeError \<and>
   get_nested_value sample ''server.port'' = Inr (Integer 8080)"
proof -
  have h: "\<not> is_dict (Integer 8080) \<and> (\<forall>s. Integer 8080 \<noteq> String s) \<and>
      (\<forall>xs. Integer 8080 \<noteq> Array xs)" by simp
  have p: "parse_key_path ''server.port.x'' = [''server'', ''port'', ''x'']"
     "parse_key_path ''server.host.local'' = [''server'', ''host'', ''local'']"
     "parse_key_path ''server.port'' = [''server'', ''port'']"
    by (simp_all add: path_defs)
  have s: "sublist ''local'' ''localhost''" by (simp add: sublist_Cons_right)
  show ?thesis
    using h s get_walk [where cur = "Integer 8080" and seg = "''x''" and segs = "[]"]
    by (simp add: p sample_def get_nested_value_def)
qed

text \<open>
  C3, as the claim has it, fails: \<^verbatim>\<open>server.host\<close> is a string, not a table, and asking for
  \<^verbatim>\<open>server.host.name\<close> gives the same \<open>KeyError\<close> as asking for the missing key
  \<^verbatim>\<open>server.nokey\<close>, not a distinct error.
\<close>

theorem get_not_a_table_counterexample:
  "get_nested_value sample ''server.host'' = Inr (String ''localhost'') \<and>
   get_nested_value sample ''server.host.name'' = Inl KeyError \<and>
   get_nested_value sample ''server.nokey'' = Inl KeyError"
proof -
  have p: "parse_key_path ''server.host'' = [''server'', ''host'']"
     "parse_key_path ''server.host.name'' = [''server'', ''host'', ''name'']"
     "parse_key_path ''server.nokey'' = [''server'', ''nokey'']"
    by (simp_all add: path_defs)
  have s: "\<not> sublist ''name'' ''localhost''" by (simp add: sublist_Cons_right)
  show ?thesis
    using s by (simp add: p sample_def get_nested_value_def)
qed

section \<open>Writing a path\<close>

text \<open>
  C4. The code does not do what the claim says where a table has to be created inside an
  inline table. In the document \<^verbatim>\<open>a = 1\<close>, \<^verbatim>\<open>it = {x = 1}\<close> the key path
  \<^verbatim>\<open>it.b.c\<close> has three segments; \<^verbatim>\<open>it\<close> is a mapping, so the loop goes into it, finds
  no \<^verbatim>\<open>b\<close> there and assigns a new table to it, which tomlkit refuses:
  \<open>set_nested_value\<close> raises a \<open>ValueError\<close> and leaves the document as it was.
\<close>

theorem set_in_inline_table_raises:
  "is_dict inline_doc \<and> parse_key_path ''it.b.c'' \<noteq> [] \<and>
   set_nested_value inline_doc ''it.b.c'' (Integer 5) = (Some ValueError, inline_doc)"
proof -
  have p: "parse_key_path ''it.b.c'' = [''it'', ''b'', ''c'']"
    by (simp add: path_defs)
  have f: "fst (set_nested_value inline_doc ''it.b.c'' (Integer 5)) = Some ValueError"
    by (simp add: set_nested_value_def p missing_or_not_dict_def inline_doc_def)
  from set_nested_value_failure [OF f] f
  have "set_nested_value inline_doc ''it.b.c'' (Integer 5) = (Some ValueError, inline_doc)"
    by (simp add: prod_eq_iff)
  then show ?thesis by (simp add: p inline_doc_def)
qed

text \<open>
  C5. On the same document and key path the assignment raises, so the value is not
  stored: \<open>get_nested_value\<close> with the same key path, on the document that
  \<open>set_nested_value\<close> has left, fails with \<open>KeyError\<close> instead of returning the value.
\<close>

theorem set_then_get_in_inline_table:
  "fst (set_nested_value inline_doc ''it.b.c'' (Integer 5)) = Some ValueError \<and>
   get_nested_value (snd (set_nested_value inline_doc ''it.b.c'' (Integer 5))) ''it.b.c'' =
     Inl KeyError"
proof -
  have p: "parse_key_path ''it.b.c'' = [''it'', ''b'', ''c'']"
    by (simp add: path_defs)
  have f: "fst (set_nested_value inline_doc ''it.b.c'' (Integer 5)) = Some ValueError"
    by (simp add: set_nested_value_def p missing_or_not_dict_def inline_doc_def)
  have g: "get_nested_value inline_doc ''it.b.c'' = Inl KeyError"
    by (simp add: get_nested_value_def p inline_doc_def)
  from set_nested_value_failure [OF f] f g show ?thesis by simp
qed

section \<open>Removing a path\<close>

text \<open>
  C6, for a key path with at least one segment. On a document, \<open>remove_nested_key\<close> is
  \<open>spec_remove\<close>: it fails, with \<open>KeyError\<close> and the document as it was, when a segment
  before the last is missing or is not a mapping, and when the last segment is not a key
  of the parent; otherwise it deletes that key, and nothing else. After a removal that
  returned normally, \<open>get_nested_value\<close> with the same key path fails with \<open>KeyError\<close>.
\<close>

theorem remove_path:
  assumes "is_dict doc" and "parse_key_path P \<noteq> []"
  shows "remove_nested_key doc P =
           (case spec_remove doc (parse_key_path P) of
              None \<Rightarrow> (Some KeyError, doc)
            | Some d' \<Rightarrow> (None, d')) \<and>
         (fst (remove_nested_key doc P) = None \<longrightarrow>
            get_nested_value (snd (remove_nested_key doc P)) P = Inl KeyError)"
  using assms
  by (auto simp: remove_nested_key_spec get_nested_value_def get_after_spec_remove
      split: option.splits)

text \<open>
  C6, on a small document: a removal that succeeds, and the three failures (last segment
  absent, a segment on the way that is a string, a segment on the way that is missing).
\<close>

theorem remove_path_witness:
  "is_dict small_db \<and> parse_key_path ''database.password'' \<noteq> [] \<and>
   remove_nested_key small_db ''database.password'' =
     (None, Dict KContainer (fmap_of_list
        [(''database'', Dict KTable (fmap_of_list [(''user'', String ''admin'')]))])) \<and>
   get_nested_value (snd (remove_nested_key small_db ''database.password''))
     ''database.password'' = Inl KeyError \<and>
   remove_nested_key small_db ''database.port'' = (Some KeyError, small_db) \<and>
   remove_nested_key small_db ''database.user.name'' = (Some KeyError, small_db) \<and>
   remove_nested_key small_db ''server.port'' = (Some KeyError, small_db)"
proof -
  have h1: "is_dict small_db" by (simp add: small_db_def)
  have p: "parse_key_path ''database.password'' = [''database'', ''password'']"
     "parse_key_path ''database.port'' = [''database'', ''port'']"
     "parse_key_path ''database.user.name'' = [''database'', ''user'', ''name'']"
     "parse_key_path ''server.port'' = [''server'', ''port'']"
    by (simp_all add: path_defs)
  have h2: "parse_key_path ''database.password'' \<noteq> []"
    "parse_key_path ''database.port'' \<noteq> []"
    "parse_key_path ''database.user.name'' \<noteq> []"
    "parse_key_path ''server.port'' \<noteq> []" by (simp_all add: p)
  have r: "spec_remove small_db [''database'', ''password''] =
        Some (Dict KContainer (fmap_of_list
          [(''database'', Dict KTable (fmap_of_list [(''user'', String ''admin'')]))]))"
     "spec_remove small_db [''database'', ''port''] = None"
     "spec_remove small_db [''database'', ''user'', ''name''] = None"
     "spec_remove small_db [''server'', ''port''] = None"
    by (simp_all add: small_db_def fmdrop_fmupd)
  from remove_path [OF h1 h2(1)] have a:
    "remove_nested_key small_db ''database.password'' =
       (None, Dict KContainer (fmap_of_list
          [(''database'', Dict KTable (fmap_of_list [(''user'', String ''admin'')]))]))"
    "get_nested_value (snd (remove_nested_key small_db ''database.password''))
       ''database.password'' = Inl KeyError"
    by (auto simp: p r)
  from remove_path [OF h1 h2(2)] have b:
    "remove_nested_key small_db ''database.port'' = (Some KeyError, small_db)"
    by (simp add: p r)
  from remove_path [OF h1 h2(3)] have c:
    "remove_nested_key small_db ''database.user.name'' = (Some KeyError, small_db)"
    by (simp add: p r)
  from remove_path [OF h1 h2(4)] have d:
    "remove_nested_key small_db ''server.port'' = (Some KeyError, small_db)"
    by (simp add: p r)
  from h1 h2(1) a b c d show ?thesis by simp
qed

text \<open>
  C6, as the claim has it, for every key path, fails: a lone dot gives no segment, and
  \<open>remove_nested_key\<close> then raises an \<open>IndexError\<close>, which is not the \<open>KeyError\<close> of
  a missing key, and deletes nothing.
\<close>

theorem remove_empty_path_counterexample:
  "is_dict small_db \<and> parse_key_path ''.'' = [] \<and>
   remove_nested_key small_db ''.'' = (Some IndexError, small_db)"
  by (simp add: remove_nested_key_def path_defs small_db_def)

section \<open>Renaming\<close>

text \<open>
  C7, as the code has it. \<open>rename_nested_key\<close> is the three calls in a row, the first
  exception ending the sequence. When it returns normally, \<open>get_nested_value\<close> gave a
  value, \<open>remove_nested_key\<close> returned normally, and the result is that of
  \<open>set_nested_value\<close> with the value on the document the removal left. Afterwards
  \<open>get_nested_value\<close> with the new path returns the value; with the old path it fails
  with \<open>KeyError\<close>, provided that neither list of segments is a prefix of the other.
\<close>

theorem rename_success:
  "rename_nested_key doc old new =
     (case get_nested_value doc old of
        Inl e \<Rightarrow> (Some e, doc)
      | Inr v \<Rightarrow>
          (case remove_nested_key doc old of
             (Some e, d1) \<Rightarrow> (Some e, d1)
           | (None, d1) \<Rightarrow> set_nested_value d1 new v)) \<and>
   (fst (rename_nested_key doc old new) = None \<longrightarrow>
      (\<exists>v. get_nested_value doc old = Inr v \<and>
           fst (remove_nested_key doc old) = None \<and>
           rename_nested_key doc old new =
             set_nested_value (snd (remove_nested_key doc old)) new v \<and>
           get_nested_value (snd (rename_nested_key doc old new)) new = Inr v \<and>
           (\<not> prefix (parse_key_path old) (parse_key_path new) \<and>
            \<not> prefix (parse_key_path new) (parse_key_path old) \<longrightarrow>
              get_nested_value (snd (rename_nested_key doc old new)) old = Inl KeyError)))"
proof (intro conjI impI)
  show "rename_nested_key doc old new =
     (case get_nested_value doc old of
        Inl e \<Rightarrow> (Some e, doc)
      | Inr v \<Rightarrow>
          (case remove_nested_key doc old of
             (Some e, d1) \<Rightarrow> (Some e, d1)
           | (None, d1) \<Rightarrow> set_nested_value d1 new v))"
    by (simp add: rename_nested_key_def)
next
  assume ok: "fst (rename_nested_key doc old new) = None"
  from ok obtain v where v: "get_nested_value doc old = Inr v"
    by (cases "get_nested_value doc old") (auto simp: rename_nested_key_def)
  obtain er d1 where r: "remove_nested_key doc old = (er, d1)"
    by (cases "remove_nested_key doc old")
  from ok v r have er: "er = None"
    by (cases er) (auto simp: rename_nested_key_def)
  from v r er have rn: "rename_nested_key doc old new = set_nested_value d1 new v"
    by (simp add: rename_nested_key_def)
  have old: "parse_key_path old \<noteq> []"
    using r er by (auto simp: remove_nested_key_def)
  from v have g: "get_loop doc (parse_key_path old) = Inr v" by (simp add: get_nested_value_def)
  from old obtain x xs where "parse_key_path old = x # xs" by (cases "parse_key_path old") auto
  with g have d: "is_dict doc" by (metis get_loop_Inr_dict)
  from get_then_spec_remove[OF g old] obtain d' where
    d': "spec_remove doc (parse_key_path old) = Some d'" "is_dict d'" by auto
  from d old d' r have d1: "d1 = d'" by (simp add: remove_nested_key_spec)
  from ok rn have oks: "fst (set_nested_value d1 new v) = None" by simp
  from set_nested_value_success [OF oks] have new: "parse_key_path new \<noteq> []"
    and s: "snd (set_nested_value d1 new v) = spec_set d1 (parse_key_path new) v"
    by simp_all
  have g1: "get_loop d1 (parse_key_path old) = Inl KeyError"
    using d'(1) d1 by (simp add: get_after_spec_remove)
  have gn: "get_nested_value (snd (rename_nested_key doc old new)) new = Inr v"
    using rn s d'(2) d1 new by (simp add: get_nested_value_def get_spec_set)
  have go: "get_nested_value (snd (rename_nested_key doc old new)) old = Inl KeyError"
    if "\<not> prefix (parse_key_path old) (parse_key_path new)"
       "\<not> prefix (parse_key_path new) (parse_key_path old)"
    using get_spec_set_diverge[of d1 "parse_key_path old" "parse_key_path new" v]
      that g1 d'(2) d1 rn s
    by (auto simp: get_nested_value_def)
  from v r er rn gn go show
    "\<exists>v. get_nested_value doc old = Inr v \<and>
         fst (remove_nested_key doc old) = None \<and>
         rename_nested_key doc old new =
           set_nested_value (snd (remove_nested_key doc old)) new v \<and>
         get_nested_value (snd (rename_nested_key doc old new)) new = Inr v \<and>
         (\<not> prefix (parse_key_path old) (parse_key_path new) \<and>
          \<not> prefix (parse_key_path new) (parse_key_path old) \<longrightarrow>
            get_nested_value (snd (rename_nested_key doc old new)) old = Inl KeyError)"
    by auto
qed

text \<open>
  C7, the renaming of the test suite: \<^verbatim>\<open>server.ssl.enabled\<close> to
  \<^verbatim>\<open>server.ssl.enable_tls\<close>.
\<close>

theorem rename_success_witness:
  "fst (rename_nested_key sample ''server.ssl.enabled'' ''server.ssl.enable_tls'') = None \<and>
   \<not> prefix (parse_key_path ''server.ssl.enabled'') (parse_key_path ''server.ssl.enable_tls'') \<and>
   \<not> prefix (parse_key_path ''server.ssl.enable_tls'') (parse_key_path ''server.ssl.enabled'') \<and>
   get_nested_value sample ''server.ssl.enabled'' = Inr (Boolean False) \<and>
   get_nested_value
     (snd (rename_nested_key sample ''server.ssl.enabled'' ''server.ssl.enable_tls''))
     ''server.ssl.enable_tls'' = Inr (Boolean False) \<and>
   get_nested_value
     (snd (rename_nested_key sample ''server.ssl.enabled'' ''server.ssl.enable_tls''))
     ''server.ssl.enabled'' = Inl KeyError"
proof -
  have p: "parse_key_path ''server.ssl.enabled'' = [''server'', ''ssl'', ''enabled'']"
    "parse_key_path ''server.ssl.enable_tls'' = [''server'', ''ssl'', ''enable_tls'']"
    by (simp_all add: path_defs)
  have g: "get_nested_value sample ''server.ssl.enabled'' = Inr (Boolean False)"
    by (simp add: get_nested_value_def p sample_def)
  have h: "fst (rename_nested_key sample ''server.ssl.enabled'' ''server.ssl.enable_tls'') = None"
    by (simp add: eval_defs p sample_def)
  have d: "\<not> prefix (parse_key_path ''server.ssl.enabled'')
               (parse_key_path ''server.ssl.enable_tls'')"
    "\<not> prefix (parse_key_path ''server.ssl.enable_tls'')
               (parse_key_path ''server.ssl.enabled'')"
    by (simp_all add: p)
  from rename_success [of sample "''server.ssl.enabled''" "''server.ssl.enable_tls''"] g d h
  show ?thesis by auto
qed

text \<open>
  C7, as the claim has it, fails: renaming \<^verbatim>\<open>a\<close> to \<^verbatim>\<open>a.b\<close> returns normally, and
  afterwards the old path \<^verbatim>\<open>a\<close> does not fail: it is the table that holds \<^verbatim>\<open>b\<close>.
\<close>

theorem rename_old_path_counterexample:
  "fst (rename_nested_key (Dict KContainer (fmap_of_list [(''a'', Integer 1)])) ''a'' ''a.b'')
     = None \<and>
   get_nested_value
     (snd (rename_nested_key (Dict KContainer (fmap_of_list [(''a'', Integer 1)])) ''a'' ''a.b''))
     ''a'' =
   Inr (Dict KTable (fmap_of_list [(''b'', Integer 1)]))"
proof -
  have p: "parse_key_path ''a'' = [''a'']" "parse_key_path ''a.b'' = [''a'', ''b'']"
    by (simp_all add: path_defs)
  show ?thesis by (simp add: eval_defs p)
qed

text \<open>
  C10, as the code has it. With an old and a new key path of at least one segment each,
  a renaming that raises has raised in one of two places. Either \<open>get_nested_value\<close>
  raised on the old path: then nothing was changed. Or the value was read and the key
  removed, which cannot fail once the value is read, and \<open>set_nested_value\<close> raised:
  then the removal is not undone, the document is the one the removal left, and the old
  path is gone from it.
\<close>

theorem rename_failure:
  assumes old: "parse_key_path old \<noteq> []" and new: "parse_key_path new \<noteq> []"
    and fail: "fst (rename_nested_key doc old new) = Some e"
  shows "(get_nested_value doc old = Inl e \<and> snd (rename_nested_key doc old new) = doc) \<or>
         (\<exists>v. get_nested_value doc old = Inr v \<and>
              fst (remove_nested_key doc old) = None \<and>
              fst (set_nested_value (snd (remove_nested_key doc old)) new v) = Some e \<and>
              snd (rename_nested_key doc old new) = snd (remove_nested_key doc old) \<and>
              get_nested_value (snd (rename_nested_key doc old new)) old = Inl KeyError)"
proof (cases "get_nested_value doc old")
  case (Inl e')
  with fail show ?thesis by (simp add: rename_nested_key_def)
next
  case (Inr v)
  then have g: "get_loop doc (parse_key_path old) = Inr v" by (simp add: get_nested_value_def)
  from old obtain x xs where "parse_key_path old = x # xs" by (cases "parse_key_path old") auto
  with g have d: "is_dict doc" by (metis get_loop_Inr_dict)
  from get_then_spec_remove[OF g old] obtain d' where
    d': "spec_remove doc (parse_key_path old) = Some d'" "is_dict d'" by auto
  from d old d' have r: "remove_nested_key doc old = (None, d')"
    by (simp add: remove_nested_key_spec)
  with Inr have rn: "rename_nested_key doc old new = set_nested_value d' new v"
    by (simp add: rename_nested_key_def)
  with fail have f: "fst (set_nested_value d' new v) = Some e" by simp
  from set_nested_value_failure [OF f] rn have unchanged:
    "snd (rename_nested_key doc old new) = d'" by simp
  have gone: "get_nested_value d' old = Inl KeyError"
    using d'(1) by (simp add: get_nested_value_def get_after_spec_remove)
  from Inr r f unchanged gone show ?thesis by simp
qed

text \<open>
  C10, on the document of the test suite, with an old path that does not exist.
\<close>

theorem rename_failure_witness:
  "parse_key_path ''this.does.not.exist'' \<noteq> [] \<and> parse_key_path ''a.b'' \<noteq> [] \<and>
   fst (rename_nested_key sample ''this.does.not.exist'' ''a.b'') = Some KeyError \<and>
   get_nested_value sample ''this.does.not.exist'' = Inl KeyError \<and>
   snd (rename_nested_key sample ''this.does.not.exist'' ''a.b'') = sample"
proof -
  have p: "parse_key_path ''this.does.not.exist'' = [''this'', ''does'', ''not'', ''exist'']"
    "parse_key_path ''a.b'' = [''a'', ''b'']"
    by (simp_all add: path_defs)
  have h1: "parse_key_path ''this.does.not.exist'' \<noteq> []" by (simp add: p)
  have h2: "parse_key_path ''a.b'' \<noteq> []" by (simp add: p)
  have h3: "fst (rename_nested_key sample ''this.does.not.exist'' ''a.b'') = Some KeyError"
    by (simp add: eval_defs p sample_def)
  have g: "get_nested_value sample ''this.does.not.exist'' = Inl KeyError"
    by (simp add: get_nested_value_def p sample_def)
  from rename_failure [OF h1 h2 h3] h1 h2 h3 g show ?thesis by auto
qed

text \<open>
  C10, as the claim has it, fails: in the document \<^verbatim>\<open>a = 1\<close>, \<^verbatim>\<open>it = {x = 1}\<close>, renaming
  \<^verbatim>\<open>a\<close> to \<^verbatim>\<open>it.b.c\<close> reads and removes \<^verbatim>\<open>a\<close>, then raises in the assignment, which
  has to create a table inside the inline table: the renaming fails and the document is
  left without \<^verbatim>\<open>a\<close>.
\<close>

theorem rename_not_atomic_counterexample:
  "parse_key_path ''a'' \<noteq> [] \<and> parse_key_path ''it.b.c'' \<noteq> [] \<and>
   get_nested_value inline_doc ''a'' = Inr (Integer 1) \<and>
   fst (rename_nested_key inline_doc ''a'' ''it.b.c'') = Some ValueError \<and>
   get_nested_value (snd (rename_nested_key inline_doc ''a'' ''it.b.c'')) ''a'' = Inl KeyError \<and>
   snd (rename_nested_key inline_doc ''a'' ''it.b.c'') \<noteq> inline_doc"
proof -
  have p: "parse_key_path ''a'' = [''a'']" "parse_key_path ''it.b.c'' = [''it'', ''b'', ''c'']"
    by (simp_all add: path_defs)
  have g: "get_nested_value inline_doc ''a'' = Inr (Integer 1)"
    by (simp add: get_nested_value_def p inline_doc_def)
  have f: "fst (rename_nested_key inline_doc ''a'' ''it.b.c'') = Some ValueError"
    by (simp add: eval_defs p inline_doc_def)
  have k: "get_nested_value (snd (rename_nested_key inline_doc ''a'' ''it.b.c'')) ''a'' =
      Inl KeyError"
    by (simp add: eval_defs p inline_doc_def)
  from g k have "snd (rename_nested_key inline_doc ''a'' ''it.b.c'') \<noteq> inline_doc"
    by auto
  with p g f k show ?thesis by simp
qed

section \<open>The empty key path\<close>

text \<open>
  C9. The empty string and a lone dot give no segment. For a key path that gives no
  segment, \<open>get_nested_value\<close> returns the whole root, and \<open>set_nested_value\<close> and
  \<open>remove_nested_key\<close> raise an \<open>IndexError\<close>, not a \<open>KeyError\<close>, and leave the
  document as it was.
\<close>

theorem empty_key_path:
  "parse_key_path '''' = [] \<and> parse_key_path ''.'' = [] \<and>
   (parse_key_path P = [] \<longrightarrow>
      get_nested_value d P = Inr d \<and>
      set_nested_value d P v = (Some IndexError, d) \<and>
      remove_nested_key d P = (Some IndexError, d))"
  by (simp add: parse_key_path_def strip_def get_nested_value_def set_nested_value_def
      remove_nested_key_def)

text \<open>
  C9, on the document of the test suite, with a dot between two blanks.
\<close>

theorem empty_key_path_witness:
  "parse_key_path '' . '' = [] \<and>
   get_nested_value sample '' . '' = Inr sample \<and>
   set_nested_value sample '' . '' (Integer 2) = (Some IndexError, sample) \<and>
   remove_nested_key sample '' . '' = (Some IndexError, sample)"
proof -
  have h: "parse_key_path '' . '' = []"
    by (simp add: path_defs)
  show ?thesis
    using h empty_key_path [of "'' . ''" sample "Integer 2"]
    by simp
qed

section \<open>Merging\<close>

text \<open>
  C8. The code does not do what the claim says for the merge that the program performs,
  where the target is the parsed document: a mapping, a table in the words of the
  specification, but not an instance of \<^verbatim>\<open>tomlkit.items.Table\<close>. The test of
  \<open>deep_merge_tomlkit\<close> fails, the source is returned in place of the document and the
  keys of the document are lost: \<^verbatim>\<open>database.user\<close> can be read before the merge and not
  after it, where only the new key is left.
\<close>

theorem merge_replaces_document:
  "deep_merge_tomlkit sample bulk_update = (sample, bulk_update) \<and>
   get_nested_value sample ''database.user'' = Inr (String ''admin'') \<and>
   get_nested_value (snd (deep_merge_tomlkit sample bulk_update)) ''database.user'' =
     Inl KeyError \<and>
   get_nested_value (snd (deep_merge_tomlkit sample bulk_update)) ''database.new_key'' =
     Inr (Integer 999)"
proof -
  have p: "parse_key_path ''database.user'' = [''database'', ''user'']"
    "parse_key_path ''database.new_key'' = [''database'', ''new_key'']"
    by (simp_all add: path_defs)
  have m: "deep_merge_tomlkit sample bulk_update = (sample, bulk_update)"
    by (simp add: deep_merge_tomlkit.simps sample_def)
  show ?thesis
    unfolding m by (simp add: get_nested_value_def p sample_def bulk_update_def)
qed

end
